theory Spec2Isabelle
  imports
    Complex_Main
    "HOL-Library.Sublist"
    "HOL-Library.List_Lexorder"
    "HOL-Library.Multiset"
begin

section \<open>Strings and errors\<close>

text \<open>
  A Python 3 \<^verbatim>\<open>str\<close> is a sequence of Unicode code points, and \<^verbatim>\<open>chr\<close> can produce any
  of them, so a string is a list of code points here. A literal is written
  \<open>str ''a_B''\<close>. The order on strings (\<^verbatim>\<open>sorted\<close>) is the lexicographic order on code
  points, which is the order of lists of naturals.
\<close>

type_synonym str = "nat list"

abbreviation (input) str :: "string \<Rightarrow> str" where
  "str s \<equiv> map of_char s"

text \<open>
  The exceptions that \<^verbatim>\<open>sqs_db.py\<close> can raise. The two \<^verbatim>\<open>NotImplementedError\<close>s of
  \<^verbatim>\<open>lat_in_to_sqs\<close> differ by their message: \<open>Sublattice_unclear\<close> is
  \<^verbatim>\<open>'Cannot parse atom list ... because the sublattice is unclear'\<close> (line 97, the
  specification's AmbiguousSublatticeError) and \<open>Cannot_rename\<close> is
  \<^verbatim>\<open>'Cannot rename because the atom name and sublattice name may be ambigous.'\<close>
  (line 104, the specification's UnsupportedOperationError). \<open>IndexError\<close> is what
  \<^verbatim>\<open>atom[1]\<close> raises when the label has no separator (the specification's
  MalformedLabelError), \<open>ValueError\<close> what \<^verbatim>\<open>chr\<close> raises out of range,
  \<open>ParseException\<close> what the grammar raises (the specification's ParseError), and
  \<open>ZeroDivisionError\<close> and \<open>OverflowError\<close> what \<^verbatim>\<open>%\<close> and \<^verbatim>\<open>/\<close> raise on integers.
\<close>

datatype message = Sublattice_unclear | Cannot_rename

datatype error =
  ParseException
  | NotImplementedError message
  | IndexError
  | ValueError
  | ZeroDivisionError
  | OverflowError

section \<open>The structure matcher\<close>

subsection \<open>\<^verbatim>\<open>lists_are_multiple\<close> (lines 279 to 302)\<close>

text \<open>
  The ratio lists are lists of integers, as the docstring of \<^verbatim>\<open>lists_are_multiple\<close>
  has them. \<^verbatim>\<open>x % y\<close> on Python integers is \<open>mod\<close> on \<open>int\<close> (the sign follows the
  divisor in both) and raises \<^verbatim>\<open>ZeroDivisionError\<close> when \<^verbatim>\<open>y\<close> is zero. The list
  comprehension inside \<^verbatim>\<open>all([...])\<close> is evaluated to its end before \<^verbatim>\<open>all\<close> looks at
  it, so a zero divisor anywhere in the list raises.
\<close>

fun remainders_are_zero :: "(int \<times> int) list \<Rightarrow> error + bool list" where
  "remainders_are_zero [] = Inr []"
| "remainders_are_zero ((x, y) # ps) =
     (if y = 0 then Inl ZeroDivisionError
      else case remainders_are_zero ps of
             Inl e \<Rightarrow> Inl e
           | Inr bs \<Rightarrow> Inr ((x mod y = 0) # bs))"

text \<open>
  \<^verbatim>\<open>x / y\<close> on Python integers is true division: the exact quotient rounded to the
  nearest IEEE 754 double, ties to even, with \<^verbatim>\<open>ZeroDivisionError\<close> for a zero divisor
  and \<^verbatim>\<open>OverflowError\<close> when the rounded quotient reaches \<open>2^1024\<close>. A double is
  represented by the rational number it stands for (the two zeros compare equal in
  Python, so the sign of zero is not kept). \<open>bit_length\<close> is \<^verbatim>\<open>int.bit_length\<close>; \<open>e\<close> is
  the binary exponent of the quotient, \<open>2^e \<le> a/b < 2^(e+1)\<close>; \<open>t\<close> is the exponent of
  the last place of the result, 53 significant bits and not below the subnormal
  \<open>2^-1074\<close>; \<open>m\<close> is the quotient in units of \<open>2^t\<close>, rounded.
\<close>

fun bit_length :: "nat \<Rightarrow> nat" where
  "bit_length n = (if n = 0 then 0 else Suc (bit_length (n div 2)))"

declare bit_length.simps [simp del]

definition round_half_even :: "nat \<Rightarrow> nat \<Rightarrow> nat" where
  "round_half_even n d =
     (let q = n div d; r = n mod d
      in if 2 * r < d then q
         else if d < 2 * r then q + 1
         else if even q then q else q + 1)"

definition truediv :: "int \<Rightarrow> int \<Rightarrow> error + rat" where
  "truediv x y =
     (if y = 0 then Inl ZeroDivisionError
      else if x = 0 then Inr 0
      else
        let a = nat \<bar>x\<bar>; b = nat \<bar>y\<bar>;
            d = int (bit_length a) - int (bit_length b);
            e = (if b * 2 ^ nat d \<le> a * 2 ^ nat (- d) then d else d - 1);
            t = max (e - 52) (- 1074);
            m = round_half_even (a * 2 ^ nat (- t)) (b * 2 ^ nat t);
            v = (of_nat m * 2 ^ nat t / 2 ^ nat (- t) :: rat)
        in if 2 ^ 1024 \<le> v then Inl OverflowError
           else Inr (if (x < 0) = (y < 0) then v else - v))"

text \<open>\<^verbatim>\<open>[x/y for x, y in zip(a, b)]\<close>, evaluated from left to right: the first division
  that raises ends it.\<close>

fun quotients :: "(int \<times> int) list \<Rightarrow> error + rat list" where
  "quotients [] = Inr []"
| "quotients ((x, y) # ps) =
     (case truediv x y of
        Inl e \<Rightarrow> Inl e
      | Inr q \<Rightarrow>
          (case quotients ps of
             Inl e \<Rightarrow> Inl e
           | Inr qs \<Rightarrow> Inr (q # qs)))"

text \<open>One pass of the loop body, for one order \<open>(a, b)\<close> of the two lists: whether
  \<^verbatim>\<open>return True\<close> is reached.\<close>

definition same_multiple :: "int list \<Rightarrow> int list \<Rightarrow> error + bool" where
  "same_multiple a b =
     (case remainders_are_zero (zip a b) of
        Inl e \<Rightarrow> Inl e
      | Inr bs \<Rightarrow>
          if list_all id bs
          then (case quotients (zip a b) of
                  Inl e \<Rightarrow> Inl e
                | Inr qs \<Rightarrow> Inr (card (set qs) = 1))
          else Inr False)"

fun check_orders :: "(int list \<times> int list) list \<Rightarrow> error + bool" where
  "check_orders [] = Inr False"
| "check_orders ((a, b) # rest) =
     (case same_multiple a b of
        Inl e \<Rightarrow> Inl e
      | Inr found \<Rightarrow> if found then Inr True else check_orders rest)"

definition lists_are_multiple :: "int list \<Rightarrow> int list \<Rightarrow> error + bool" where
  "lists_are_multiple l1 l2 =
     (if length l1 \<noteq> length l2 then Inr False
      else check_orders [(l1, l2), (l2, l1)])"

subsection \<open>\<^verbatim>\<open>get_structures_from_database\<close> (lines 255 to 309)\<close>

text \<open>
  A stored document, reduced to the two fields the query reads:
  \<^verbatim>\<open>doc['symmetry']['symbol']\<close> and \<^verbatim>\<open>doc['sublattice_site_ratios']\<close>, a list with one
  list of ratios per sublattice. Whatever else a document carries is the record's
  extension.
\<close>

record document =
  symmetry_symbol :: str
  sublattice_site_ratios :: "int list list"

text \<open>
  The query \<^verbatim>\<open>(where('symmetry').symbol == symmetry) & (where(...).test(...))\<close>. The
  conjunction of two queries is Python's \<^verbatim>\<open>and\<close>: the ratio test runs only on a
  document whose symmetry matched, and an exception it raises is not caught.
\<close>

definition query :: "str \<Rightarrow> int list \<Rightarrow> 'a document_scheme \<Rightarrow> error + bool" where
  "query symmetry subl_site_ratios doc =
     (if symmetry_symbol doc = symmetry
      then lists_are_multiple (map sum_list (sublattice_site_ratios doc)) subl_site_ratios
      else Inr False)"

text \<open>\<^verbatim>\<open>db.search(cond)\<close>: the documents that satisfy the condition, in the order the
  table iterates them; the first exception ends the search.\<close>

fun search :: "('d \<Rightarrow> error + bool) \<Rightarrow> 'd list \<Rightarrow> error + 'd list" where
  "search cond [] = Inr []"
| "search cond (doc # docs) =
     (case cond doc of
        Inl e \<Rightarrow> Inl e
      | Inr keep \<Rightarrow>
          (case search cond docs of
             Inl e \<Rightarrow> Inl e
           | Inr results \<Rightarrow> Inr (if keep then doc # results else results)))"

text \<open>The parameter \<^verbatim>\<open>subl_model\<close> is not read by the function.\<close>

definition get_structures_from_database ::
  "'a document_scheme list \<Rightarrow> str \<Rightarrow> str list list \<Rightarrow> int list \<Rightarrow> error + 'a document_scheme list" where
  "get_structures_from_database db symmetry subl_model subl_site_ratios =
     search (query symmetry subl_site_ratios) db"

subsection \<open>Proportionality, in the words of the specification\<close>

text \<open>
  \<open>R_c\<close> is an exact multiple of \<open>R_q\<close> when there is a single scalar \<open>k\<close> such that for
  every index \<open>i\<close>, \<open>R_c[i]\<close> is exactly divisible by \<open>R_q[i]\<close> (remainder zero) and
  \<open>R_c[i] / R_q[i] = k\<close>. The lists are proportional when they have the same length and
  one is an exact multiple of the other.
\<close>

definition exact_multiple :: "int list \<Rightarrow> int list \<Rightarrow> bool" where
  "exact_multiple R_c R_q \<longleftrightarrow>
     (\<exists>k::rat. \<forall>i < length R_c. R_c ! i mod R_q ! i = 0 \<and> of_int (R_c ! i) / of_int (R_q ! i) = k)"

definition proportional :: "int list \<Rightarrow> int list \<Rightarrow> bool" where
  "proportional R_c R_q \<longleftrightarrow>
     length R_c = length R_q \<and> (exact_multiple R_c R_q \<or> exact_multiple R_q R_c)"

section \<open>Properties of the matcher\<close>

subsection \<open>True division is exact on small multiples\<close>

lemma bit_length_le: "n < 2 ^ k \<Longrightarrow> bit_length n \<le> k"
proof (induction n arbitrary: k rule: bit_length.induct)
  case (1 n)
  show ?case
  proof (cases "n = 0")
    case True
    then show ?thesis by (simp add: bit_length.simps)
  next
    case False
    then obtain j where k: "k = Suc j"
      using "1.prems" by (cases k) auto
    then have "n div 2 < 2 ^ j"
      using "1.prems" by auto
    then have "bit_length (n div 2) \<le> j"
      using "1.IH" False by simp
    then show ?thesis
      using False k by (subst bit_length.simps) simp
  qed
qed

lemma bit_length_pos: "0 < n \<Longrightarrow> 0 < bit_length n"
  by (subst bit_length.simps) simp

lemma round_half_even_exact: "0 < d \<Longrightarrow> round_half_even (q * d) d = q"
  by (simp add: round_half_even_def)

lemma truediv_exact:
  assumes y: "y \<noteq> 0" and dvd: "x mod y = 0" and small: "\<bar>x\<bar> < 2 ^ 53"
  shows "truediv x y = Inr (of_int x / of_int y)"
proof (cases "x = 0")
  case True
  then show ?thesis using y by (simp add: truediv_def)
next
  case x: False
  define a where "a = nat \<bar>x\<bar>"
  define b where "b = nat \<bar>y\<bar>"
  define d where "d = int (bit_length a) - int (bit_length b)"
  define e where "e = (if b * 2 ^ nat d \<le> a * 2 ^ nat (- d) then d else d - 1)"
  define t where "t = max (e - 52) (- 1074)"
  define m where "m = round_half_even (a * 2 ^ nat (- t)) (b * 2 ^ nat t)"
  define v :: rat where "v = of_nat m * 2 ^ nat t / 2 ^ nat (- t)"
  have a: "0 < a" "a < 2 ^ 53" and b: "0 < b"
    using x y small by (auto simp: a_def b_def nat_less_iff)
  from dvd have "y dvd x" by (simp add: dvd_eq_mod_eq_0)
  then have "b dvd a"
    unfolding a_def b_def by (simp add: nat_dvd_iff)
  then obtain q where q: "a = q * b"
    by (auto simp: dvd_def mult.commute)
  have bl: "bit_length a \<le> 53"
    using a by (intro bit_length_le)
  have "d \<le> 52"
    using bl bit_length_pos [OF b] by (simp add: d_def)
  then have "e \<le> 52" by (simp add: e_def)
  then have t: "t \<le> 0" "nat t = 0" by (simp_all add: t_def)
  have "m = q * 2 ^ nat (- t)"
    using b round_half_even_exact [of b "q * 2 ^ nat (- t)"]
    by (simp add: m_def t q mult_ac)
  then have v: "v = of_nat q"
    by (simp add: v_def t)
  have "q \<le> a" using q b by simp
  then have "q < 2 ^ 53" using a by simp
  then have "(of_nat q :: rat) < 2 ^ 53"
    by (metis of_nat_less_iff of_nat_numeral of_nat_power)
  moreover have "(2 :: rat) ^ 53 \<le> 2 ^ 1024"
    by (intro power_increasing) simp_all
  ultimately have nov: "\<not> 2 ^ 1024 \<le> v"
    using v by simp
  have "(of_int \<bar>x\<bar> :: rat) = of_nat q * of_int \<bar>y\<bar>"
    using q a b unfolding a_def b_def
    by (metis abs_ge_zero of_int_of_nat_eq of_nat_mult of_nat_nat of_int_mult)
  then have quo: "\<bar>of_int x / of_int y :: rat\<bar> = of_nat q"
    using y by (simp add: abs_divide flip: of_int_abs)
  have sgn: "(if (x < 0) = (y < 0) then v else - v) = of_int x / of_int y"
  proof (cases "(x < 0) = (y < 0)")
    case True
    then have "0 \<le> (of_int x / of_int y :: rat)"
      using x y by (auto simp: zero_le_divide_iff)
    then show ?thesis using True quo v by simp
  next
    case False
    then have "(of_int x / of_int y :: rat) \<le> 0"
      using x y by (auto simp: divide_le_0_iff)
    then show ?thesis using False quo v by simp
  qed
  have "truediv x y = (if 2 ^ 1024 \<le> v then Inl OverflowError
           else Inr (if (x < 0) = (y < 0) then v else - v))"
    using x y unfolding truediv_def Let_def v_def m_def t_def e_def d_def a_def b_def
    by (simp only: if_False)
  then show ?thesis
    using nov sgn by simp
qed

subsection \<open>One pass of the loop\<close>

lemma remainders_are_zero_eq:
  "remainders_are_zero ps =
     (if 0 \<in> snd ` set ps then Inl ZeroDivisionError
      else Inr (map (\<lambda>p. fst p mod snd p = 0) ps))"
  by (induction ps rule: remainders_are_zero.induct) auto

lemma quotients_exact:
  "\<forall>p \<in> set ps. snd p \<noteq> 0 \<and> fst p mod snd p = 0 \<and> \<bar>fst p\<bar> < 2 ^ 53 \<Longrightarrow>
     quotients ps = Inr (map (\<lambda>p. of_int (fst p) / of_int (snd p)) ps)"
  by (induction ps rule: quotients.induct) (simp_all add: truediv_exact)

lemma card_set_one:
  "card (set qs) = 1 \<longleftrightarrow> qs \<noteq> [] \<and> (\<forall>q \<in> set qs. q = hd qs)"
proof
  assume c: "card (set qs) = 1"
  then obtain k where k: "set qs = {k}"
    by (auto simp: card_1_singleton_iff)
  then have "qs \<noteq> []" by auto
  moreover from this k have "hd qs = k"
    using hd_in_set [of qs] by auto
  ultimately show "qs \<noteq> [] \<and> (\<forall>q \<in> set qs. q = hd qs)"
    using k by auto
next
  assume a: "qs \<noteq> [] \<and> (\<forall>q \<in> set qs. q = hd qs)"
  then have "set qs = {hd qs}"
    using hd_in_set [of qs] by auto
  then show "card (set qs) = 1" by simp
qed

lemma snd_set_zip:
  "length a = length b \<Longrightarrow> snd ` set (zip a b) = set b"
  by (induction a b rule: list_induct2) auto

lemma fst_set_zip:
  "length a = length b \<Longrightarrow> fst ` set (zip a b) = set a"
  by (induction a b rule: list_induct2) auto

lemma divisible_same_quotient:
  assumes len: "length a = length b"
  shows "(\<forall>p \<in> set (zip a b). fst p mod snd p = 0)
      \<and> card (set (map (\<lambda>p. of_int (fst p) / of_int (snd p) :: rat) (zip a b))) = 1
    \<longleftrightarrow> a \<noteq> [] \<and> exact_multiple a b"
proof -
  let ?qs = "map (\<lambda>p. of_int (fst p) / of_int (snd p) :: rat) (zip a b)"
  have idx: "\<And>P. (\<forall>p \<in> set (zip a b). P (fst p) (snd p)) \<longleftrightarrow> (\<forall>i < length a. P (a ! i) (b ! i))"
    using len by (auto simp: set_zip)
  show ?thesis
  proof
    assume t: "(\<forall>p \<in> set (zip a b). fst p mod snd p = 0) \<and> card (set ?qs) = 1"
    then have d: "\<forall>i < length a. a ! i mod b ! i = 0"
      using idx [of "\<lambda>x y. x mod y = 0"] by simp
    from t have c: "card (set ?qs) = 1" by simp
    then have ne: "?qs \<noteq> []" and eq: "\<forall>q \<in> set ?qs. q = hd ?qs"
      using card_set_one [of ?qs] by blast+
    from ne have "a \<noteq> []" by auto
    moreover have "\<forall>i < length a. of_int (a ! i) / of_int (b ! i) = hd ?qs"
    proof (intro allI impI)
      fix i assume i: "i < length a"
      then have "?qs ! i \<in> set ?qs"
        using len by (intro nth_mem) simp
      moreover have "?qs ! i = of_int (a ! i) / of_int (b ! i)"
        using i len by simp
      ultimately show "of_int (a ! i) / of_int (b ! i) = hd ?qs"
        using eq by metis
    qed
    ultimately show "a \<noteq> [] \<and> exact_multiple a b"
      using d unfolding exact_multiple_def by blast
  next
    assume "a \<noteq> [] \<and> exact_multiple a b"
    then obtain k :: rat where ne: "a \<noteq> []"
      and k: "\<forall>i < length a. a ! i mod b ! i = 0 \<and> of_int (a ! i) / of_int (b ! i) = k"
      unfolding exact_multiple_def by blast
    have d: "\<forall>p \<in> set (zip a b). fst p mod snd p = 0"
      using k idx [of "\<lambda>x y. x mod y = 0"] by simp
    have "\<forall>p \<in> set (zip a b). of_int (fst p) / of_int (snd p) = k"
      using k idx [of "\<lambda>x y. of_int x / of_int y = k"] by simp
    then have "set ?qs \<subseteq> {k}" by auto
    moreover have "?qs \<noteq> []" using ne len by auto
    ultimately have "set ?qs = {k}"
      by (metis set_empty subset_singleton_iff)
    then have "card (set ?qs) = 1" by simp
    then show "(\<forall>p \<in> set (zip a b). fst p mod snd p = 0) \<and> card (set ?qs) = 1"
      using d by simp
  qed
qed

lemma same_multiple_zero:
  "length a = length b \<Longrightarrow> 0 \<in> set b \<Longrightarrow> same_multiple a b = Inl ZeroDivisionError"
  by (simp add: same_multiple_def remainders_are_zero_eq snd_set_zip)

lemma same_multiple_value:
  assumes len: "length a = length b" and nz: "0 \<notin> set b"
    and small: "\<forall>x \<in> set a. \<bar>x\<bar> < 2 ^ 53"
  shows "same_multiple a b = Inr (a \<noteq> [] \<and> exact_multiple a b)"
proof -
  let ?qs = "map (\<lambda>p. of_int (fst p) / of_int (snd p) :: rat) (zip a b)"
  have r: "remainders_are_zero (zip a b) = Inr (map (\<lambda>p. fst p mod snd p = 0) (zip a b))"
    using len nz by (simp add: remainders_are_zero_eq snd_set_zip)
  have fs: "\<forall>p \<in> set (zip a b). snd p \<noteq> 0 \<and> \<bar>fst p\<bar> < 2 ^ 53"
  proof
    fix p assume p: "p \<in> set (zip a b)"
    then have "fst p \<in> set a" and "snd p \<in> set b"
      using fst_set_zip [OF len] snd_set_zip [OF len] by blast+
    then show "snd p \<noteq> 0 \<and> \<bar>fst p\<bar> < 2 ^ 53"
      using nz small by auto
  qed
  show ?thesis
  proof (cases "\<forall>p \<in> set (zip a b). fst p mod snd p = 0")
    case True
    then have "quotients (zip a b) = Inr ?qs"
      using fs by (intro quotients_exact) simp
    then have "same_multiple a b = Inr (card (set ?qs) = 1)"
      using True by (simp add: same_multiple_def r list_all_iff)
    then show ?thesis
      using True divisible_same_quotient [OF len] by simp
  next
    case False
    then have "same_multiple a b = Inr False"
      by (auto simp: same_multiple_def r list_all_iff)
    moreover have "\<not> (a \<noteq> [] \<and> exact_multiple a b)"
      using False divisible_same_quotient [OF len] by blast
    ultimately show ?thesis by simp
  qed
qed

lemma exact_multiple_nonzero:
  assumes "length a = length b" and "exact_multiple a b" and "0 \<notin> set a"
  shows "0 \<notin> set b"
proof
  assume "0 \<in> set b"
  then obtain i where i: "i < length b" "b ! i = 0"
    by (auto simp: in_set_conv_nth)
  then have "a ! i mod b ! i = 0"
    using assms unfolding exact_multiple_def by auto
  then have "a ! i = 0" using i by simp
  then show False
    using assms i by (metis nth_mem)
qed

subsection \<open>The whole test\<close>

lemma lists_are_multiple_length:
  "length l1 \<noteq> length l2 \<Longrightarrow> lists_are_multiple l1 l2 = Inr False"
  by (simp add: lists_are_multiple_def)

lemma lists_are_multiple_zero:
  "length l1 = length l2 \<Longrightarrow> 0 \<in> set l2 \<Longrightarrow> lists_are_multiple l1 l2 = Inl ZeroDivisionError"
  by (simp add: lists_are_multiple_def same_multiple_zero)

lemma lists_are_multiple_zero_error:
  "0 \<in> set l2 \<Longrightarrow> lists_are_multiple l1 l2 = Inl e \<Longrightarrow> e = ZeroDivisionError"
  by (cases "length l1 = length l2")
    (simp_all add: lists_are_multiple_zero lists_are_multiple_length)

lemma lists_are_multiple_true:
  assumes nz: "0 \<notin> set l2" and small: "\<forall>x \<in> set (l1 @ l2). \<bar>x\<bar> < 2 ^ 53"
  shows "lists_are_multiple l1 l2 = Inr True \<longleftrightarrow> l1 \<noteq> [] \<and> proportional l1 l2"
proof (cases "length l1 = length l2")
  case False
  then show ?thesis
    by (simp add: lists_are_multiple_def proportional_def)
next
  case len: True
  then have len': "length l2 = length l1" by simp
  have first: "same_multiple l1 l2 = Inr (l1 \<noteq> [] \<and> exact_multiple l1 l2)"
    using len nz small by (intro same_multiple_value) simp_all
  show ?thesis
  proof (cases "l1 \<noteq> [] \<and> exact_multiple l1 l2")
    case True
    then show ?thesis
      using len first by (simp add: lists_are_multiple_def proportional_def)
  next
    case no: False
    show ?thesis
    proof (cases "0 \<in> set l1")
      case True
      then have "same_multiple l2 l1 = Inl ZeroDivisionError"
        by (rule same_multiple_zero [OF len'])
      then have "lists_are_multiple l1 l2 \<noteq> Inr True"
        using len first no by (simp add: lists_are_multiple_def)
      moreover have "\<not> exact_multiple l2 l1"
        using exact_multiple_nonzero [OF len' _ nz] True by blast
      ultimately show ?thesis
        using no by (auto simp: proportional_def)
    next
      case False
      then have "same_multiple l2 l1 = Inr (l2 \<noteq> [] \<and> exact_multiple l2 l1)"
        using len' small by (intro same_multiple_value) simp_all
      then have "lists_are_multiple l1 l2 = Inr (l2 \<noteq> [] \<and> exact_multiple l2 l1)"
        using len first no by (simp add: lists_are_multiple_def)
      then show ?thesis
        using no len by (auto simp: proportional_def)
    qed
  qed
qed

lemma lists_are_multiple_value:
  assumes nz1: "0 \<notin> set l1" and nz2: "0 \<notin> set l2"
    and small: "\<forall>x \<in> set (l1 @ l2). \<bar>x\<bar> < 2 ^ 53"
  shows "lists_are_multiple l1 l2 = Inr (l1 \<noteq> [] \<and> proportional l1 l2)"
proof (cases "length l1 = length l2")
  case False
  then show ?thesis
    by (simp add: lists_are_multiple_def proportional_def)
next
  case len: True
  then have len': "length l2 = length l1" by simp
  have "same_multiple l1 l2 = Inr (l1 \<noteq> [] \<and> exact_multiple l1 l2)"
    using len nz2 small by (intro same_multiple_value) simp_all
  moreover have "same_multiple l2 l1 = Inr (l2 \<noteq> [] \<and> exact_multiple l2 l1)"
    using len' nz1 small by (intro same_multiple_value) simp_all
  ultimately show ?thesis
    using len by (auto simp: lists_are_multiple_def proportional_def)
qed

lemma proportional_2_4: "proportional [2, 4] [1, 2]"
proof -
  have "exact_multiple [2, 4] [1, 2]"
    unfolding exact_multiple_def by (intro exI [of _ 2]) (simp add: less_Suc_eq)
  then show ?thesis by (simp add: proportional_def)
qed

lemma proportional_1_2: "proportional [1, 2] [2, 4]"
proof -
  have "exact_multiple [2, 4] [1, 2]"
    unfolding exact_multiple_def by (intro exI [of _ 2]) (simp add: less_Suc_eq)
  then show ?thesis by (simp add: proportional_def)
qed

lemma not_proportional_3_4: "\<not> proportional [3, 4] [1, 2]"
proof -
  have "\<not> exact_multiple [3, 4] [1, 2]"
  proof
    assume "exact_multiple [3, 4] [1, 2]"
    then obtain k :: rat where k: "\<forall>i < length [3, 4 :: int]. [3, 4 :: int] ! i mod [1, 2] ! i = 0
        \<and> of_int ([3, 4] ! i) / of_int ([1, 2] ! i) = k"
      unfolding exact_multiple_def by blast
    have "k = 3" using k [rule_format, of 0] by simp
    moreover have "k = 2" using k [rule_format, of 1] by simp
    ultimately show False by simp
  qed
  moreover have "\<not> exact_multiple [1, 2] [3, 4]"
  proof
    assume "exact_multiple [1, 2] [3, 4]"
    then obtain k :: rat where k: "\<forall>i < length [1, 2 :: int]. [1, 2 :: int] ! i mod [3, 4] ! i = 0
        \<and> of_int ([1, 2] ! i) / of_int ([3, 4] ! i) = k"
      unfolding exact_multiple_def by blast
    show False using k [rule_format, of 0] by simp
  qed
  ultimately show ?thesis by (simp add: proportional_def)
qed

lemma search_total:
  "\<forall>doc \<in> set db. cond doc = Inr (P doc) \<Longrightarrow> search cond db = Inr (filter P db)"
  by (induction db) simp_all

lemma search_error:
  "doc \<in> set db \<Longrightarrow> cond doc = Inl e \<Longrightarrow>
   \<forall>d \<in> set db. \<forall>e'. cond d = Inl e' \<longrightarrow> e' = e \<Longrightarrow>
   search cond db = Inl e"
proof (induction db)
  case Nil
  then show ?case by simp
next
  case (Cons d db)
  show ?case
  proof (cases "cond d")
    case (Inl e')
    have "e' = e"
      using Cons.prems(3) Inl by simp
    then show ?thesis using Inl by simp
  next
    case (Inr keep)
    have "doc \<noteq> d"
      using Cons.prems(2) Inr by auto
    then have "doc \<in> set db"
      using Cons.prems(1) by simp
    moreover have "\<forall>d \<in> set db. \<forall>e'. cond d = Inl e' \<longrightarrow> e' = e"
      using Cons.prems(3) by simp
    ultimately have "search cond db = Inl e"
      using Cons.IH Cons.prems(2) by blast
    then show ?thesis using Inr by simp
  qed
qed

section \<open>Claims about the matcher\<close>

text \<open>
  C10. Whenever the two lists have the same length and the second one, which the matcher
  fills with the query's site ratios, holds a zero, \<open>lists_are_multiple\<close> raises
  \<open>ZeroDivisionError\<close> instead of returning a boolean; and a query that reaches such a
  test, on a stored document whose symmetry matches and which has as many sublattices
  as the query has ratios, is aborted with that error rather than answered.
\<close>

theorem lists_are_multiple_zero_ratio:
  assumes "length l1 = length l2" and "0 \<in> set l2"
  shows "lists_are_multiple l1 l2 = Inl ZeroDivisionError
    \<and> (\<forall>db subl_model. (\<exists>doc \<in> set db. symmetry_symbol doc = symmetry
            \<and> map sum_list (sublattice_site_ratios doc) = l1)
         \<longrightarrow> get_structures_from_database db symmetry subl_model l2 = Inl ZeroDivisionError)"
proof (intro conjI allI impI)
  show first: "lists_are_multiple l1 l2 = Inl ZeroDivisionError"
    using assms by (rule lists_are_multiple_zero)
  fix db :: "'a document_scheme list" and subl_model :: "str list list"
  assume "\<exists>doc \<in> set db. symmetry_symbol doc = symmetry
            \<and> map sum_list (sublattice_site_ratios doc) = l1"
  then obtain doc where doc: "doc \<in> set db" "query symmetry l2 doc = Inl ZeroDivisionError"
    using first by (auto simp: query_def)
  have "\<forall>d \<in> set db. \<forall>e'. query symmetry l2 d = Inl e' \<longrightarrow> e' = ZeroDivisionError"
  proof (intro ballI allI impI)
    fix d :: "'a document_scheme" and e'
    assume "query symmetry l2 d = Inl e'"
    then have "lists_are_multiple (map sum_list (sublattice_site_ratios d)) l2 = Inl e'"
      by (simp add: query_def split: if_splits)
    then show "e' = ZeroDivisionError"
      using assms(2) by (rule lists_are_multiple_zero_error [rotated])
  qed
  then have "search (query symmetry l2) db = Inl ZeroDivisionError"
    using doc by (intro search_error [of doc]) simp_all
  then show "get_structures_from_database db symmetry subl_model l2 = Inl ZeroDivisionError"
    by (simp add: get_structures_from_database_def)
qed

theorem lists_are_multiple_zero_ratio_witness:
  "length [1, 1 :: int] = length [1, 0 :: int] \<and> 0 \<in> set [1, 0 :: int]
   \<and> lists_are_multiple [1, 1] [1, 0] = Inl ZeroDivisionError
   \<and> get_structures_from_database
        [\<lparr>symmetry_symbol = str ''Fm-3m'', sublattice_site_ratios = [[3], [4]]\<rparr>,
         \<lparr>symmetry_symbol = str ''Pm-3m'', sublattice_site_ratios = [[1], [1]]\<rparr>]
        (str ''Pm-3m'') [[str ''A''], [str ''B'']] [1, 0] = Inl ZeroDivisionError"
proof -
  have h1: "length [1, 1 :: int] = length [1, 0 :: int]" by simp
  have h2: "0 \<in> set [1, 0 :: int]" by simp
  note t = lists_are_multiple_zero_ratio [OF h1 h2, of "str ''Pm-3m''"]
  from t have a: "lists_are_multiple [1, 1] [1, 0] = Inl ZeroDivisionError" by blast
  have b: "get_structures_from_database
        [\<lparr>symmetry_symbol = str ''Fm-3m'', sublattice_site_ratios = [[3], [4]]\<rparr>,
         \<lparr>symmetry_symbol = str ''Pm-3m'', sublattice_site_ratios = [[1], [1]]\<rparr>]
        (str ''Pm-3m'') [[str ''A''], [str ''B'']] [1, 0] = Inl ZeroDivisionError"
    by (rule t [THEN conjunct2, rule_format]) simp
  show ?thesis
    using a b by simp
qed

text \<open>
  C2, as the code has it. The specification's proportionality holds, vacuously, of two
  empty lists; \<open>lists_are_multiple\<close> answers False on them, because the set of
  quotients is empty and so has not exactly one element.
\<close>

theorem lists_are_multiple_empty:
  "\<not> (lists_are_multiple [] [] = Inr True \<longleftrightarrow> proportional [] [])"
proof -
  have "lists_are_multiple [] [] = Inr False"
    by (simp add: lists_are_multiple_def same_multiple_def)
  moreover have "proportional [] []"
    by (simp add: proportional_def exact_multiple_def)
  ultimately show ?thesis by simp
qed

text \<open>
  C2, amended. Lists of different length never match. For lists of integers below \<open>2^53\<close>
  in absolute value whose second list (the query's site ratios) holds no zero,
  \<open>lists_are_multiple\<close> returns True exactly when the lists are not empty and are
  proportional in the specification's sense: equal length and, in one of the two
  directions, every element exactly divisible by the corresponding one with a single
  common quotient. When the first list holds no zero either, it returns False in every
  other case. What the function does on a zero divisor or on larger numbers is outside
  this statement.
\<close>

theorem lists_are_multiple_iff:
  "(length l1 \<noteq> length l2 \<longrightarrow> lists_are_multiple l1 l2 = Inr False)
   \<and> (0 \<notin> set l2 \<and> (\<forall>x \<in> set (l1 @ l2). \<bar>x\<bar> < 2 ^ 53) \<longrightarrow>
        (lists_are_multiple l1 l2 = Inr True \<longleftrightarrow> l1 \<noteq> [] \<and> proportional l1 l2)
        \<and> (0 \<notin> set l1 \<longrightarrow>
             lists_are_multiple l1 l2 = Inr (l1 \<noteq> [] \<and> proportional l1 l2)))"
  using lists_are_multiple_length [of l1 l2] lists_are_multiple_true [of l2 l1]
    lists_are_multiple_value [of l1 l2]
  by blast

theorem lists_are_multiple_iff_witness:
  "lists_are_multiple [2, 4] [1, 2] = Inr True
   \<and> lists_are_multiple [1, 2] [2, 4] = Inr True
   \<and> lists_are_multiple [3, 4] [1, 2] = Inr False
   \<and> lists_are_multiple [1, 2, 3] [1, 2] = Inr False"
proof -
  have a: "lists_are_multiple [2, 4] [1, 2] = Inr True"
    using lists_are_multiple_iff [of "[2, 4]" "[1, 2]"] proportional_2_4 by simp
  have b: "lists_are_multiple [1, 2] [2, 4] = Inr True"
    using lists_are_multiple_iff [of "[1, 2]" "[2, 4]"] proportional_1_2 by simp
  have c: "lists_are_multiple [3, 4] [1, 2] = Inr False"
    using lists_are_multiple_iff [of "[3, 4]" "[1, 2]"] not_proportional_3_4 by simp
  have d: "lists_are_multiple [1, 2, 3] [1, 2] = Inr False"
    using lists_are_multiple_iff [of "[1, 2, 3]" "[1, 2]"] by simp
  show ?thesis
    using a b c d by simp
qed

text \<open>
  C6, as the code has it. A stored document with no sublattice at all has the query's
  symmetry and sums that are, vacuously, proportional to an empty list of query ratios,
  yet the matcher does not return it.
\<close>

theorem get_structures_from_database_empty_ratios:
  "get_structures_from_database
     [\<lparr>symmetry_symbol = str ''Pm-3m'', sublattice_site_ratios = []\<rparr>]
     (str ''Pm-3m'') [] [] = Inr []
   \<and> symmetry_symbol \<lparr>symmetry_symbol = str ''Pm-3m'', sublattice_site_ratios = []\<rparr>
       = str ''Pm-3m''
   \<and> proportional
       (map sum_list (sublattice_site_ratios
          \<lparr>symmetry_symbol = str ''Pm-3m'', sublattice_site_ratios = []\<rparr>)) []"
  by (simp add: get_structures_from_database_def query_def lists_are_multiple_def
      same_multiple_def proportional_def exact_multiple_def)

text \<open>
  C6, amended. When the query's site ratios and the per-sublattice sums of every stored
  document of the query's symmetry are non-zero integers below \<open>2^53\<close> in absolute value,
  the matcher returns exactly the documents whose symmetry symbol is equal, as a
  string, to the query's and whose per-sublattice sums are a non-empty list
  proportional to the query's site ratios, in the order of the collection. A document
  whose symmetry differs is never returned, whatever its ratios. What the matcher does
  on a zero ratio or on larger numbers is outside this statement.
\<close>

theorem get_structures_from_database_filter:
  assumes "0 \<notin> set subl_site_ratios"
    and "\<forall>x \<in> set subl_site_ratios. \<bar>x\<bar> < 2 ^ 53"
    and "\<forall>doc \<in> set db. symmetry_symbol doc = symmetry \<longrightarrow>
           (\<forall>x \<in> set (map sum_list (sublattice_site_ratios doc)). x \<noteq> 0 \<and> \<bar>x\<bar> < 2 ^ 53)"
  shows "get_structures_from_database db symmetry subl_model subl_site_ratios =
     Inr (filter (\<lambda>doc. symmetry_symbol doc = symmetry
           \<and> map sum_list (sublattice_site_ratios doc) \<noteq> []
           \<and> proportional (map sum_list (sublattice_site_ratios doc)) subl_site_ratios) db)"
proof -
  let ?P = "\<lambda>doc. symmetry_symbol doc = symmetry
           \<and> map sum_list (sublattice_site_ratios doc) \<noteq> []
           \<and> proportional (map sum_list (sublattice_site_ratios doc)) subl_site_ratios"
  have "\<forall>doc \<in> set db. query symmetry subl_site_ratios doc = Inr (?P doc)"
  proof
    fix doc assume doc: "doc \<in> set db"
    show "query symmetry subl_site_ratios doc = Inr (?P doc)"
    proof (cases "symmetry_symbol doc = symmetry")
      case False
      then show ?thesis by (simp add: query_def)
    next
      case True
      let ?s = "map sum_list (sublattice_site_ratios doc)"
      have s: "\<forall>x \<in> set ?s. x \<noteq> 0 \<and> \<bar>x\<bar> < 2 ^ 53"
        using assms(3) doc True by blast
      then have "0 \<notin> set ?s" by blast
      moreover have "\<forall>x \<in> set (?s @ subl_site_ratios). \<bar>x\<bar> < 2 ^ 53"
        using s assms(2) by auto
      ultimately have "lists_are_multiple ?s subl_site_ratios
          = Inr (?s \<noteq> [] \<and> proportional ?s subl_site_ratios)"
        using assms(1) by (intro lists_are_multiple_value)
      then show ?thesis
        using True by (simp add: query_def)
    qed
  qed
  then have "search (query symmetry subl_site_ratios) db = Inr (filter ?P db)"
    by (rule search_total)
  then show ?thesis
    by (simp add: get_structures_from_database_def)
qed

theorem get_structures_from_database_filter_witness:
  "get_structures_from_database
     [\<lparr>symmetry_symbol = str ''Fm-3m'', sublattice_site_ratios = [[1], [2]]\<rparr>,
      \<lparr>symmetry_symbol = str ''Pm-3m'', sublattice_site_ratios = [[3], [4]]\<rparr>,
      \<lparr>symmetry_symbol = str ''Pm-3m'', sublattice_site_ratios = [[1, 1], [3, 1]]\<rparr>]
     (str ''Pm-3m'') [[str ''A''], [str ''B'']] [1, 2]
   = Inr [\<lparr>symmetry_symbol = str ''Pm-3m'', sublattice_site_ratios = [[1, 1], [3, 1]]\<rparr>]"
proof -
  have h1: "0 \<notin> set [1, 2 :: int]" by simp
  have h2: "\<forall>x \<in> set [1, 2 :: int]. \<bar>x\<bar> < 2 ^ 53" by simp
  have h3: "\<forall>doc \<in> set
     [\<lparr>symmetry_symbol = str ''Fm-3m'', sublattice_site_ratios = [[1], [2]]\<rparr>,
      \<lparr>symmetry_symbol = str ''Pm-3m'', sublattice_site_ratios = [[3], [4]]\<rparr>,
      \<lparr>symmetry_symbol = str ''Pm-3m'', sublattice_site_ratios = [[1, 1], [3, 1]]\<rparr>].
      symmetry_symbol doc = str ''Pm-3m'' \<longrightarrow>
           (\<forall>x \<in> set (map sum_list (sublattice_site_ratios doc)). x \<noteq> 0 \<and> \<bar>x\<bar> < 2 ^ 53)"
    by simp
  show ?thesis
    using get_structures_from_database_filter [OF h1 h2 h3, of "[[str ''A''], [str ''B'']]"]
      proportional_2_4 not_proportional_3_4
    by simp
qed


section \<open>The sublattice model builder\<close>

subsection \<open>String operations\<close>

text \<open>
  \<^verbatim>\<open>str.lower\<close>, \<^verbatim>\<open>str.split\<close> with a one-character separator, \<^verbatim>\<open>re.findall("\d+", s)\<close>,
  \<^verbatim>\<open>str.replace\<close>, \<^verbatim>\<open>int\<close> and \<^verbatim>\<open>chr\<close>. Lower-casing and the class \<^verbatim>\<open>\d\<close> are those of
  ASCII: the atom tokens are words of the grammar, \<^verbatim>\<open>Word(alphas, alphanums + '_')\<close>,
  which holds ASCII letters, digits and the underscore only. \<^verbatim>\<open>chr(i)\<close> raises
  \<^verbatim>\<open>ValueError\<close> from \<open>0x110000\<close> on and \<^verbatim>\<open>OverflowError\<close> when \<open>i\<close> does not fit a C
  \<^verbatim>\<open>int\<close>.
\<close>

definition lower :: "str \<Rightarrow> str" where
  "lower s = map (\<lambda>c. if 65 \<le> c \<and> c \<le> 90 then c + 32 else c) s"

fun split :: "nat \<Rightarrow> str \<Rightarrow> str list" where
  "split sep [] = [[]]"
| "split sep (c # cs) =
     (if c = sep then [] # split sep cs
      else (c # hd (split sep cs)) # tl (split sep cs))"

definition is_digit :: "nat \<Rightarrow> bool" where
  "is_digit c \<longleftrightarrow> 48 \<le> c \<and> c \<le> 57"

function findall_digits :: "str \<Rightarrow> str list" where
  "findall_digits [] = []"
| "findall_digits (c # cs) =
     (if is_digit c
      then (c # takeWhile is_digit cs) # findall_digits (dropWhile is_digit cs)
      else findall_digits cs)"
  by pat_completeness auto
termination
  by (relation "measure length") (auto simp: less_Suc_eq_le length_dropWhile_le)

text \<open>\<^verbatim>\<open>s.replace(old, new)\<close>: every occurrence of \<open>old\<close>, found from left to right
  without overlap, becomes \<open>new\<close>.\<close>

function replace :: "str \<Rightarrow> str \<Rightarrow> str \<Rightarrow> str" where
  "replace old new [] = (if old = [] then new else [])"
| "replace old new (c # cs) =
     (if old = [] then new @ c # replace old new cs
      else if prefix old (c # cs) then new @ replace old new (drop (length old) (c # cs))
      else c # replace old new cs)"
  by pat_completeness auto
termination
  by (relation "measure (\<lambda>(old, new, s). length s)") auto

definition int_of_digits :: "str \<Rightarrow> nat" where
  "int_of_digits ds = foldl (\<lambda>n c. 10 * n + (c - 48)) 0 ds"

definition chr :: "nat \<Rightarrow> error + str" where
  "chr i = (if i < 1114112 then Inr [i]
            else if i < 2147483648 then Inl ValueError
            else Inl OverflowError)"

subsection \<open>\<^verbatim>\<open>lat_in_to_sqs\<close>, after parsing (lines 75 to 125)\<close>

text \<open>
  The parse tree: a float is kept as the lexeme that \<^verbatim>\<open>float\<close> reads, a vector is a group
  of three floats, the coordinate system is a group of three vectors or of two (lengths
  and angles), the lattice a group of three vectors, and each atom a position and a
  group of tokens.
\<close>

type_synonym vector = "str \<times> str \<times> str"

datatype coord_sys = Vectors vector vector vector | Lengths_angles vector vector

record parsed_data =
  atat_coord_system :: coord_sys
  atat_lattice :: "vector \<times> vector \<times> vector"
  atat_atoms :: "(vector \<times> str list) list"

text \<open>
  The matrices are those of the external \<^verbatim>\<open>Lattice\<close> class and are kept symbolic:
  floating-point matrix algebra plays no role below.
\<close>

datatype matrix =
  Lattice "vector \<times> vector \<times> vector"
  | From_parameters vector vector
  | Dot matrix matrix

text \<open>
  Modelled from the spec: the class \<^verbatim>\<open>AbstractSQS\<close> of \<^verbatim>\<open>dfttk.structure_builders.sqs\<close>,
  the specification's AbstractStructureDescriptor, as a value that holds what the
  constructor is given: the lattice, the abstract species labels, the parallel
  cartesian positions, the sublattice model and the sublattice names.
\<close>

record AbstractSQS =
  lattice :: matrix
  species_list :: "str list"
  species_positions :: "vector list"
  sublattice_model :: "str list list"
  sublattice_names :: "str list"

text \<open>The dictionary \<^verbatim>\<open>subl_model\<close>, in insertion order.\<close>

type_synonym subl_dict = "(str \<times> str set) list"

definition get :: "subl_dict \<Rightarrow> str \<Rightarrow> str set \<Rightarrow> str set" where
  "get d k dflt = (case map_of d k of None \<Rightarrow> dflt | Some v \<Rightarrow> v)"

fun setitem :: "subl_dict \<Rightarrow> str \<Rightarrow> str set \<Rightarrow> subl_dict" where
  "setitem [] k v = [(k, v)]"
| "setitem ((k', v') # d) k v =
     (if k' = k then (k, v) # d else (k', v') # setitem d k v)"

text \<open>Line 112: \<^verbatim>\<open>subl_model[subl] = subl_model.get(subl, set()).union({subl_atom})\<close>.\<close>

definition add_species :: "subl_dict \<Rightarrow> str \<Rightarrow> str \<Rightarrow> subl_dict" where
  "add_species subl_model subl subl_atom =
     setitem subl_model subl (get subl_model subl {} \<union> {subl_atom})"

text \<open>Lines 108 to 110: every digit run found in the designator is replaced, wherever
  it occurs in the current string, by the letter \<^verbatim>\<open>chr(96 + int(run))\<close>.\<close>

fun replace_items :: "str list \<Rightarrow> str \<Rightarrow> error + str" where
  "replace_items [] subl = Inr subl"
| "replace_items (rep_item # rep_items) subl =
     (case chr (96 + int_of_digits rep_item) of
        Inl e \<Rightarrow> Inl e
      | Inr letter \<Rightarrow> replace_items rep_items (replace rep_item letter subl))"

definition digits_to_alphas :: "str \<Rightarrow> error + str" where
  "digits_to_alphas subl = replace_items (findall_digits subl) subl"

text \<open>Lines 96 to 111 for one atom record: the sublattice name and the species.\<close>

definition decode :: "bool \<Rightarrow> str list \<Rightarrow> error + str \<times> str" where
  "decode rename atoms =
     (if 1 < length atoms then Inl (NotImplementedError Sublattice_unclear)
      else case atoms of
        [] \<Rightarrow> Inl IndexError
      | atom # _ \<Rightarrow>
          if rename then
            (case split 95 (lower atom) of
               [] \<Rightarrow> Inl IndexError
             | subl # rest \<Rightarrow>
                 (case digits_to_alphas subl of
                    Inl e \<Rightarrow> Inl e
                  | Inr subl' \<Rightarrow>
                      (case rest of
                         [] \<Rightarrow> Inl IndexError
                       | subl_atom # _ \<Rightarrow> Inr (subl', subl_atom))))
          else Inl (NotImplementedError Cannot_rename))"

text \<open>The loop of lines 94 to 115, on the three accumulators.\<close>

fun atoms_loop ::
  "bool \<Rightarrow> (vector \<times> str list) list \<Rightarrow> str list \<times> vector list \<times> subl_dict
     \<Rightarrow> error + str list \<times> vector list \<times> subl_dict" where
  "atoms_loop rename [] acc = Inr acc"
| "atoms_loop rename ((position, atoms) # rest) (species, positions, subl_model) =
     (case decode rename atoms of
        Inl e \<Rightarrow> Inl e
      | Inr (subl, subl_atom) \<Rightarrow>
          atoms_loop rename rest
            (species @ [88 # subl @ subl_atom],
             positions @ [position],
             add_species subl_model subl subl_atom))"

definition coord_system_matrix :: "coord_sys \<Rightarrow> matrix" where
  "coord_system_matrix cs =
     (case cs of
        Vectors u v w \<Rightarrow> Lattice (u, v, w)
      | Lengths_angles lengths angles \<Rightarrow> From_parameters lengths angles)"

definition sqs_of_parsed_data :: "parsed_data \<Rightarrow> bool \<Rightarrow> error + AbstractSQS" where
  "sqs_of_parsed_data p rename =
     (case atoms_loop rename (atat_atoms p) ([], [], []) of
        Inl e \<Rightarrow> Inl e
      | Inr (species, positions, subl_model) \<Rightarrow>
          Inr \<lparr>lattice = Dot (coord_system_matrix (atat_coord_system p)) (Lattice (atat_lattice p)),
               species_list = species,
               species_positions = positions,
               sublattice_model =
                 map (\<lambda>s. sorted_list_of_set (get subl_model s {})) (sort (map fst subl_model)),
               sublattice_names = sort (map fst subl_model)\<rparr>)"


text \<open>
  The digit-to-letter translation in the words of the specification: every maximal run
  of decimal digits, from left to right, becomes the single letter at code point
  \<open>'a' + d - 1\<close>, where \<open>d\<close> is the run read as an integer; no other character changes.
\<close>

function translate_runs :: "str \<Rightarrow> error + str" where
  "translate_runs [] = Inr []"
| "translate_runs (c # cs) =
     (if is_digit c
      then (case chr (97 + int_of_digits (c # takeWhile is_digit cs) - 1) of
              Inl e \<Rightarrow> Inl e
            | Inr letter \<Rightarrow>
                (case translate_runs (dropWhile is_digit cs) of
                   Inl e \<Rightarrow> Inl e
                 | Inr s \<Rightarrow> Inr (letter @ s)))
      else (case translate_runs cs of Inl e \<Rightarrow> Inl e | Inr s \<Rightarrow> Inr (c # s)))"
  by pat_completeness auto
termination
  by (relation "measure length") (auto simp: less_Suc_eq_le length_dropWhile_le)

text \<open>The label that line 114 gives an atom record, for stating what the builder
  returns.\<close>

definition species_label :: "str list \<Rightarrow> str" where
  "species_label atoms =
     (case decode True atoms of Inl e \<Rightarrow> [] | Inr (subl, subl_atom) \<Rightarrow> 88 # subl @ subl_atom)"

section \<open>Properties of the builder\<close>

subsection \<open>The dictionary\<close>

lemma keys_setitem: "fst ` set (setitem d k v) = insert k (fst ` set d)"
  by (induction d k v rule: setitem.induct) auto

lemma distinct_setitem: "distinct (map fst d) \<Longrightarrow> distinct (map fst (setitem d k v))"
  by (induction d k v rule: setitem.induct) (auto simp: keys_setitem)

lemma map_of_setitem:
  "map_of (setitem d k v) x = (if x = k then Some v else map_of d x)"
  by (induction d k v rule: setitem.induct) auto

lemma get_setitem:
  "get (setitem d k v) x dflt = (if x = k then v else get d x dflt)"
  by (simp add: get_def map_of_setitem)

lemma keys_add_species: "fst ` set (add_species d k a) = insert k (fst ` set d)"
  by (simp add: add_species_def keys_setitem)

lemma distinct_add_species:
  "distinct (map fst d) \<Longrightarrow> distinct (map fst (add_species d k a))"
  by (simp add: add_species_def distinct_setitem)

lemma get_add_species:
  "get (add_species d k a) x {} = (if x = k then insert a (get d k {}) else get d x {})"
  by (simp add: add_species_def get_setitem)

lemma fold_add_species_keys:
  "fst ` set (foldl (\<lambda>d p. add_species d (fst p) (snd p)) d prs) = fst ` set d \<union> fst ` set prs"
  by (induction prs arbitrary: d) (auto simp: keys_add_species)

lemma fold_add_species_distinct:
  "distinct (map fst d) \<Longrightarrow>
   distinct (map fst (foldl (\<lambda>d p. add_species d (fst p) (snd p)) d prs))"
  by (induction prs arbitrary: d) (simp_all add: distinct_add_species)

lemma fold_add_species_get:
  "get (foldl (\<lambda>d p. add_species d (fst p) (snd p)) d prs) k {}
     = get d k {} \<union> {a. (k, a) \<in> set prs}"
proof (induction prs arbitrary: d)
  case Nil
  then show ?case by simp
next
  case (Cons p prs)
  have "get (foldl (\<lambda>d p. add_species d (fst p) (snd p)) (add_species d (fst p) (snd p)) prs) k {}
      = get (add_species d (fst p) (snd p)) k {} \<union> {a. (k, a) \<in> set prs}"
    by (rule Cons.IH)
  also have "\<dots> = get d k {} \<union> {a. (k, a) \<in> set (p # prs)}"
    by (cases p) (auto simp: get_add_species)
  finally show ?case by simp
qed

subsection \<open>The loop over the atom records\<close>

lemma atoms_loop_ok:
  "\<forall>a \<in> set atoms. \<not> isl (decode r (snd a)) \<Longrightarrow>
   atoms_loop r atoms (sp, ps, d) =
     Inr (sp @ map (\<lambda>a. 88 # fst (projr (decode r (snd a))) @ snd (projr (decode r (snd a)))) atoms,
          ps @ map fst atoms,
          foldl (\<lambda>d p. add_species d (fst p) (snd p)) d (map (\<lambda>a. projr (decode r (snd a))) atoms))"
proof (induction atoms arbitrary: sp ps d)
  case Nil
  show ?case by simp
next
  case (Cons a atoms)
  obtain position toks where a: "a = (position, toks)" by (cases a)
  then have "\<not> isl (decode r toks)" using Cons.prems by simp
  then obtain subl subl_atom where dec: "decode r toks = Inr (subl, subl_atom)"
    by (cases "decode r toks") auto
  have rest: "\<forall>a \<in> set atoms. \<not> isl (decode r (snd a))"
    using Cons.prems by simp
  show ?case
    by (simp add: a dec Cons.IH [OF rest])
qed

lemma atoms_loop_fail:
  "\<forall>a \<in> set pre. \<not> isl (decode r (snd a)) \<Longrightarrow> decode r toks = Inl e \<Longrightarrow>
   atoms_loop r (pre @ (position, toks) # post) acc = Inl e"
proof (induction pre arbitrary: acc)
  case Nil
  then show ?case by (cases acc) simp
next
  case (Cons a pre)
  obtain pos' toks' where a: "a = (pos', toks')" by (cases a)
  then have "\<not> isl (decode r toks')" using Cons.prems by simp
  then obtain subl subl_atom where dec: "decode r toks' = Inr (subl, subl_atom)"
    by (cases "decode r toks'") auto
  have rest: "\<forall>a \<in> set pre. \<not> isl (decode r (snd a))"
    using Cons.prems by simp
  obtain sp ps d where acc: "acc = (sp, ps, d)" by (cases acc)
  show ?case
    by (simp add: a acc dec Cons.IH [OF rest Cons.prems(2)])
qed

lemma atoms_loop_isl:
  assumes "\<exists>a \<in> set atoms. isl (decode r (snd a))"
  shows "isl (atoms_loop r atoms acc)"
proof -
  obtain pre a post where sp: "atoms = pre @ a # post" and bad: "isl (decode r (snd a))"
    and ok: "\<forall>b \<in> set pre. \<not> isl (decode r (snd b))"
    using split_list_first_prop [OF assms] by blast
  obtain e where e: "decode r (snd a) = Inl e"
    using bad by (cases "decode r (snd a)") auto
  have "atoms_loop r (pre @ (fst a, snd a) # post) acc = Inl e"
    using ok e by (rule atoms_loop_fail)
  then show ?thesis using sp by simp
qed

subsection \<open>What the builder returns\<close>

lemma build_isl:
  "\<exists>a \<in> set (atat_atoms p). isl (decode r (snd a)) \<Longrightarrow> isl (sqs_of_parsed_data p r)"
  using atoms_loop_isl [of "atat_atoms p" r "([], [], [])"]
  by (auto simp: sqs_of_parsed_data_def split: sum.splits)

lemma build_fail:
  "atat_atoms p = pre @ (position, toks) # post \<Longrightarrow>
   \<forall>a \<in> set pre. \<not> isl (decode r (snd a)) \<Longrightarrow> decode r toks = Inl e \<Longrightarrow>
   sqs_of_parsed_data p r = Inl e"
  using atoms_loop_fail [of pre r toks e position post "([], [], [])"]
  by (simp add: sqs_of_parsed_data_def)

lemma sort_keys:
  "distinct (map fst d) \<Longrightarrow> sort (map fst d) = sorted_list_of_set (fst ` set d)"
  using sorted_list_of_set_sort_remdups [of "map fst d"]
  by (simp add: distinct_remdups_id)

lemma build_value:
  assumes "\<forall>a \<in> set (atat_atoms p). \<not> isl (decode True (snd a))"
  shows "sqs_of_parsed_data p True =
     Inr \<lparr>lattice = Dot (coord_system_matrix (atat_coord_system p)) (Lattice (atat_lattice p)),
          species_list = map (\<lambda>a. species_label (snd a)) (atat_atoms p),
          species_positions = map fst (atat_atoms p),
          sublattice_model =
            map (\<lambda>s. sorted_list_of_set {a. (s, a) \<in> (\<lambda>a. projr (decode True (snd a))) ` set (atat_atoms p)})
              (sorted_list_of_set (fst ` (\<lambda>a. projr (decode True (snd a))) ` set (atat_atoms p))),
          sublattice_names =
            sorted_list_of_set (fst ` (\<lambda>a. projr (decode True (snd a))) ` set (atat_atoms p))\<rparr>"
proof -
  let ?prs = "map (\<lambda>a. projr (decode True (snd a))) (atat_atoms p)"
  let ?d = "foldl (\<lambda>d p. add_species d (fst p) (snd p)) [] ?prs"
  have lab: "map (\<lambda>a. 88 # fst (projr (decode True (snd a))) @ snd (projr (decode True (snd a))))
        (atat_atoms p) = map (\<lambda>a. species_label (snd a)) (atat_atoms p)"
  proof (rule map_cong [OF refl])
    fix a assume "a \<in> set (atat_atoms p)"
    then have "\<not> isl (decode True (snd a))" using assms by simp
    then show "88 # fst (projr (decode True (snd a))) @ snd (projr (decode True (snd a)))
        = species_label (snd a)"
      by (cases "decode True (snd a)") (auto simp: species_label_def)
  qed
  have loop: "atoms_loop True (atat_atoms p) ([], [], [])
      = Inr (map (\<lambda>a. species_label (snd a)) (atat_atoms p), map fst (atat_atoms p), ?d)"
    using atoms_loop_ok [OF assms, of "[]" "[]" "[]"] lab by simp
  have dist: "distinct (map fst ?d)"
    by (rule fold_add_species_distinct) simp
  have keys: "fst ` set ?d = fst ` set ?prs"
    using fold_add_species_keys [of "[]" ?prs] by simp
  have names: "sort (map fst ?d) = sorted_list_of_set (fst ` set ?prs)"
    using sort_keys [OF dist] keys by simp
  have "get ?d s {} = {a. (s, a) \<in> set ?prs}" for s
    using fold_add_species_get [of "[]" ?prs s] by (simp add: get_def)
  then show ?thesis
    by (simp add: sqs_of_parsed_data_def loop names)
qed

subsection \<open>Tokens\<close>

lemma lower_lower: "lower (lower s) = lower s"
  by (induction s) (auto simp: lower_def)

lemma decode_lower: "decode True (map lower atoms) = decode True atoms"
  by (cases atoms) (simp_all add: decode_def lower_lower)

lemma atoms_loop_lower:
  "atoms_loop True (map (\<lambda>a. (fst a, map lower (snd a))) atoms) acc = atoms_loop True atoms acc"
proof (induction atoms arbitrary: acc)
  case Nil
  show ?case by simp
next
  case (Cons a atoms)
  obtain sp ps d where acc: "acc = (sp, ps, d)" by (cases acc)
  show ?case
    by (cases a) (simp add: acc decode_lower Cons.IH split: sum.splits)
qed

lemma split_no_separator: "sep \<notin> set s \<Longrightarrow> split sep s = [s]"
  by (induction s) auto

lemma lower_no_separator: "95 \<notin> set token \<Longrightarrow> 95 \<notin> set (lower token)"
  by (auto simp: lower_def)

lemma replace_items_ok:
  "\<forall>run \<in> set items. 96 + int_of_digits run < 1114112 \<Longrightarrow> \<not> isl (replace_items items s)"
  by (induction items arbitrary: s) (simp_all add: chr_def)

lemma decode_no_separator:
  assumes "95 \<notin> set token"
  shows "isl (decode True [token])"
    and "\<forall>run \<in> set (findall_digits (lower token)). 96 + int_of_digits run < 1114112 \<Longrightarrow>
         decode True [token] = Inl IndexError"
proof -
  have sp: "split 95 (lower token) = [lower token]"
    using assms by (intro split_no_separator lower_no_separator)
  show "isl (decode True [token])"
    by (simp add: decode_def sp split: sum.splits)
  assume "\<forall>run \<in> set (findall_digits (lower token)). 96 + int_of_digits run < 1114112"
  then have "\<not> isl (digits_to_alphas (lower token))"
    unfolding digits_to_alphas_def by (rule replace_items_ok)
  then show "decode True [token] = Inl IndexError"
    by (cases "digits_to_alphas (lower token)") (simp_all add: decode_def sp)
qed


end
